theory Spec2Isabelle
  imports Complex_Main "HOL-Library.Sublist"
begin

section \<open>The motion logger \<open>imu_csv.py\<close>\<close>

text \<open>
  The script is a single-threaded loop around four helpers. Everything it does is an
  effect on the outside world, so the model threads an explicit \<open>world\<close> through every
  function: the terminal the operator types on, the console output, and the LED array of
  the Sense HAT. Python floats are modelled as reals; the only facts used about them are
  facts of order, which the rounding of a float subtraction preserves.
\<close>

subsection \<open>Colours and the three LED patterns\<close>

type_synonym rgb = "nat \<times> nat \<times> nat"

definition red :: rgb where "red = (255, 0, 0)"
definition green :: rgb where "green = (0, 255, 0)"
definition blue :: rgb where "blue = (0, 0, 255)"
definition cyan :: rgb where "cyan = (0, 255, 255)"
definition pink :: rgb where "pink = (255, 0, 255)"
definition yellow :: rgb where "yellow = (255, 255, 0)"
definition black :: rgb where "black = (0, 0, 0)"

definition pick_led_pattern :: "rgb list" where
  "pick_led_pattern =
    [black, blue, black, black, cyan, cyan, cyan, black,
     blue, black, blue, black, black, cyan, black, black,
     blue, blue, black, black, black, cyan, black, black,
     blue, black, black, black, cyan, cyan, cyan, black,
     black, pink, pink, black, yellow, black, black, black,
     pink, black, black, black, yellow, black, yellow, black,
     pink, black, black, black, yellow, yellow, black, black,
     black, pink, pink, black, yellow, black, yellow, black]"

definition key_led_pattern :: "rgb list" where
  "key_led_pattern =
    [black, black, black, black, black, black, black, black,
     black, black, black, black, black, yellow, yellow, black,
     black, black, black, black, yellow, black, black, yellow,
     yellow, yellow, yellow, yellow, yellow, black, black, yellow,
     yellow, black, yellow, black, yellow, black, black, yellow,
     yellow, black, yellow, black, black, yellow, yellow, black,
     black, black, black, black, black, black, black, black,
     black, black, black, black, black, black, black, black]"

definition nokey_led_pattern :: "rgb list" where
  "nokey_led_pattern =
    [red, black, black, black, black, black, black, red,
     black, red, black, black, black, yellow, red, black,
     black, black, red, black, yellow, red, black, yellow,
     yellow, yellow, yellow, red, red, black, black, yellow,
     yellow, black, yellow, red, red, black, black, yellow,
     yellow, black, red, black, black, red, yellow, black,
     black, red, black, black, black, black, red, black,
     red, black, black, black, black, black, black, red]"

subsection \<open>The world outside the script\<close>

text \<open>
  Standard input is a terminal in line mode that stays open. The operator's lines are kept
  without their line end; the line end is added when a line is read. \<open>queue\<close> holds the lines
  already typed and waiting on the file descriptor: this is what \<open>select\<close> sees. \<open>later\<close>
  holds the lines the operator types only afterwards: a read that finds nothing waits for
  the next of them, and waits for ever when there is none. \<open>buf\<close> is the text that
  \<open>sys.stdin\<close> has already taken from the descriptor and not yet handed out; \<open>select\<close> does
  not see it.

  A field of a CSV row, and an item printed on the console, is either a string, the string
  that \<open>"%s" % x\<close> gives for a float \<open>x\<close>, or a float handed to the writer as it is.
\<close>

datatype field = Str string | FloatStr real | Float real

datatype printed = Msg string | Echo "field list"

record world =
  buf :: string
  queue :: "string list"
  later :: "string list"
  stdout :: "printed list"
  frames :: "rgb list list"

datatype py_error =
    KeyError string
  | ValueError
  | FileNotFoundError string
  | SystemExit nat

text \<open>
  A call returns a value, raises, or never comes back because it waits for input that never
  arrives. Each outcome carries the world as the call left it.
\<close>

datatype 'a outcome = Returns 'a world | Raises py_error world | Blocks world

definition nl :: char where
  "nl = CHR 0x0A"

definition print_msg :: "string \<Rightarrow> world \<Rightarrow> world" where
  "print_msg m w = w\<lparr>stdout := stdout w @ [Msg m]\<rparr>"

text \<open>One blocking read of the file descriptor: the next line, waited for if need be.\<close>

definition pull :: "world \<Rightarrow> (string \<times> world) option" where
  "pull w =
    (case queue w of
       l # q \<Rightarrow> Some (l, w\<lparr>queue := q\<rparr>)
     | [] \<Rightarrow>
        (case later w of
           l # ls \<Rightarrow> Some (l, w\<lparr>later := ls\<rparr>)
         | [] \<Rightarrow> None))"

text \<open>\<open>select.select([sys.stdin], [], [], 0)\<close>: is the descriptor readable right now?\<close>

definition select_stdin :: "world \<Rightarrow> bool" where
  "select_stdin w = (queue w \<noteq> [])"

text \<open>
  \<open>sys.stdin.read(1)\<close>: a character of the buffer when it has one; otherwise one read of
  the descriptor refills the buffer with a whole line, line end included.
\<close>

definition stdin_read1 :: "world \<Rightarrow> (char \<times> world) option" where
  "stdin_read1 w =
    (case buf w of
       c # cs \<Rightarrow> Some (c, w\<lparr>buf := cs\<rparr>)
     | [] \<Rightarrow>
        (case pull w of
           None \<Rightarrow> None
         | Some (l, w') \<Rightarrow>
            (case l @ [nl] of
               c # cs \<Rightarrow> Some (c, w'\<lparr>buf := cs\<rparr>)
             | [] \<Rightarrow> None)))"

text \<open>
  \<open>sys.stdin.readline()\<close>: the text up to and including the first line end. The buffer is
  searched first; the descriptor is read only when the buffer holds no line end.
\<close>

definition split_line :: "string \<Rightarrow> string \<times> string" where
  "split_line s = (takeWhile (\<lambda>c. c \<noteq> nl) s @ [nl], tl (dropWhile (\<lambda>c. c \<noteq> nl) s))"

definition stdin_readline :: "world \<Rightarrow> (string \<times> world) option" where
  "stdin_readline w =
    (if nl \<in> set (buf w) then
       Some (fst (split_line (buf w)), w\<lparr>buf := snd (split_line (buf w))\<rparr>)
     else
       (case pull w of
          None \<Rightarrow> None
        | Some (l, w') \<Rightarrow>
            Some (fst (split_line (buf w @ l @ [nl])),
                  w'\<lparr>buf := snd (split_line (buf w @ l @ [nl]))\<rparr>)))"

text \<open>
  \<open>input(prompt)\<close> on a terminal: the prompt is written, then the C library's line reader
  takes one whole line from the descriptor and the line end is stripped. It does not go
  through the buffer of \<open>sys.stdin\<close>.
\<close>

definition input_line :: "string \<Rightarrow> world \<Rightarrow> string outcome" where
  "input_line prompt w =
    (case pull (print_msg prompt w) of
       None \<Rightarrow> Blocks (print_msg prompt w)
     | Some (l, w') \<Rightarrow> Returns l w')"

subsection \<open>\<open>keyboard_handler\<close>\<close>

definition keyboard_handler :: "world \<Rightarrow> bool outcome" where
  "keyboard_handler w =
    (if select_stdin w then
       (case stdin_readline w of
          None \<Rightarrow> Blocks w
        | Some (line, w') \<Rightarrow> Returns True w')
     else Returns False w)"

subsection \<open>\<open>sigint_handler\<close>\<close>

text \<open>\<open>sense.clear()\<close> writes the colour (0, 0, 0) to all 64 cells.\<close>

definition sense_clear :: "world \<Rightarrow> world" where
  "sense_clear w = w\<lparr>frames := frames w @ [replicate 64 (0, 0, 0)]\<rparr>"

definition sigint_handler :: "world \<Rightarrow> unit outcome" where
  "sigint_handler w = Raises (SystemExit 0) (sense_clear (print_msg ''Exiting logger script'' w))"

subsection \<open>\<open>set_name\<close>\<close>

definition negative :: "string \<Rightarrow> bool" where
  "negative name_check = (CHR ''N'' \<in> set name_check \<or> CHR ''n'' \<in> set name_check)"

definition name_prompt :: string where
  "name_prompt = ''Please type in your name and hit ENTER to confirm: ''"

definition check_prompt :: "string \<Rightarrow> string" where
  "check_prompt name =
    ''Is this name correct? [enter Y/y for yes or N/n for no] --> '' @ name @ '': ''"

lemma pull_shorter:
  "pull w = Some (l, w') \<Longrightarrow>
     length (queue w') + length (later w') < length (queue w) + length (later w)"
  by (auto simp: pull_def split: list.splits)

lemma input_line_shorter:
  "input_line p w = Returns l w' \<Longrightarrow>
     length (queue w') + length (later w') < length (queue w) + length (later w)"
  by (auto simp: input_line_def print_msg_def dest!: pull_shorter split: option.splits)

text \<open>
  The \<open>while\<close> loop with its two variables. The loop returns both, so that the answer
  that ended it can be named; \<open>set_name\<close> returns the name alone, as the source does.
\<close>

function set_name_loop :: "string \<Rightarrow> string \<Rightarrow> world \<Rightarrow> (string \<times> string) outcome" where
  "set_name_loop name name_check w =
    (if negative name_check then
       (case input_line name_prompt w of
          Blocks w1 \<Rightarrow> Blocks w1
        | Raises e w1 \<Rightarrow> Raises e w1
        | Returns name' w1 \<Rightarrow>
           (case input_line (check_prompt name') w1 of
              Blocks w2 \<Rightarrow> Blocks w2
            | Raises e w2 \<Rightarrow> Raises e w2
            | Returns name_check' w2 \<Rightarrow> set_name_loop name' name_check' w2))
     else Returns (name, name_check) w)"
  by pat_completeness auto
termination
  by (relation "measure (\<lambda>(name, name_check, w). length (queue w) + length (later w))")
     (auto dest!: input_line_shorter)

declare set_name_loop.simps [simp del]

definition set_name :: "world \<Rightarrow> string outcome" where
  "set_name w =
    (case set_name_loop [] ''N'' w of
       Returns (name, name_check) w' \<Rightarrow> Returns name w'
     | Raises e w' \<Rightarrow> Raises e w'
     | Blocks w' \<Rightarrow> Blocks w')"

subsection \<open>\<open>select_mode\<close>\<close>

text \<open>
  \<open>str.isdigit\<close> on the characters a terminal sends in ASCII: the ten digits. (Python
  counts further Unicode characters as digits; none of them is a key of the dictionary
  below.)
\<close>

definition isdigit :: "char \<Rightarrow> bool" where
  "isdigit c = (c \<in> set ''0123456789'')"

definition mode_prompt :: string where
  "mode_prompt = ''Please enter the number corresponding to the desired mode and hit ENTER to confirm:''
     @ [nl, CHR 0x09, CHR 0x09] @ ''[1->pick] [2->key] [3->nokey]''"

text \<open>The characters still to come on standard input, in the order they are read.\<close>

definition chars :: "world \<Rightarrow> string" where
  "chars w = buf w @ concat (map (\<lambda>l. l @ [nl]) (queue w @ later w))"

lemma stdin_read1_chars:
  "stdin_read1 w = Some (c, w') \<Longrightarrow> chars w = c # chars w'"
  by (auto simp: stdin_read1_def pull_def chars_def split: list.splits option.splits
           simp: Cons_eq_append_conv)


text \<open>
  The first \<open>read(1)\<close> and the \<open>while\<close> loop after it: characters are read until one is a
  digit.
\<close>

function read_digit :: "world \<Rightarrow> char outcome" where
  "read_digit w =
    (case stdin_read1 w of
       None \<Rightarrow> Blocks w
     | Some (num_mode, w') \<Rightarrow>
        (if isdigit num_mode then Returns num_mode w' else read_digit w'))"
  by pat_completeness auto
termination
  by (relation "measure (\<lambda>w. length (chars w))") (auto dest!: stdin_read1_chars)

declare read_digit.simps [simp del]

text \<open>The dictionary used as a switch statement; a missing key raises \<open>KeyError\<close>.\<close>

definition mode_of_digit :: "char \<Rightarrow> string option" where
  "mode_of_digit = [CHR ''1'' \<mapsto> ''pick'', CHR ''2'' \<mapsto> ''key'', CHR ''3'' \<mapsto> ''nokey'']"

definition select_mode :: "world \<Rightarrow> string outcome" where
  "select_mode w =
    (case read_digit (print_msg mode_prompt w) of
       Blocks w' \<Rightarrow> Blocks w'
     | Raises e w' \<Rightarrow> Raises e w'
     | Returns num_mode w' \<Rightarrow>
        (case mode_of_digit num_mode of
           None \<Rightarrow> Raises (KeyError [num_mode]) w'
         | Some mode \<Rightarrow> Returns mode w'))"

subsection \<open>\<open>display_mode\<close>\<close>

text \<open>
  \<open>sense.set_pixels\<close> takes exactly 64 colour triples with components up to 255, and
  raises \<open>ValueError\<close> on anything else. One call is one frame on the LED array.
\<close>

definition set_pixels :: "rgb list \<Rightarrow> world \<Rightarrow> unit outcome" where
  "set_pixels pixel_list w =
    (if length pixel_list \<noteq> 64 then Raises ValueError w
     else if list_ex (\<lambda>(r, g, b). r > 255 \<or> g > 255 \<or> b > 255) pixel_list then Raises ValueError w
     else Returns () (w\<lparr>frames := frames w @ [pixel_list]\<rparr>))"

definition pattern_of_mode :: "string \<Rightarrow> rgb list option" where
  "pattern_of_mode =
    [''pick'' \<mapsto> pick_led_pattern, ''key'' \<mapsto> key_led_pattern, ''nokey'' \<mapsto> nokey_led_pattern]"

definition display_mode :: "string \<Rightarrow> world \<Rightarrow> unit outcome" where
  "display_mode mode w =
    (case pattern_of_mode mode of
       None \<Rightarrow> Raises (KeyError mode) w
     | Some current_pattern \<Rightarrow> set_pixels current_pattern w)"

subsection \<open>Dates and \<open>strftime\<close>\<close>

record datetime =
  year :: nat
  month :: nat
  day :: nat
  hour :: nat
  minute :: nat
  second :: nat

definition digit_char :: "nat \<Rightarrow> char" where
  "digit_char n = ''0123456789'' ! n"

fun show_nat :: "nat \<Rightarrow> string" where
  "show_nat n = (if n < 10 then [digit_char n] else show_nat (n div 10) @ [digit_char (n mod 10)])"

declare show_nat.simps [simp del]

definition zero_pad :: "nat \<Rightarrow> string \<Rightarrow> string" where
  "zero_pad k s = replicate (k - length s) (CHR ''0'') @ s"

text \<open>The six directives the script uses; any other is left as it stands.\<close>

definition directive :: "char \<Rightarrow> datetime \<Rightarrow> string" where
  "directive c dt =
    (if c = CHR ''m'' then zero_pad 2 (show_nat (month dt))
     else if c = CHR ''d'' then zero_pad 2 (show_nat (day dt))
     else if c = CHR ''Y'' then zero_pad 4 (show_nat (year dt))
     else if c = CHR ''H'' then zero_pad 2 (show_nat (hour dt))
     else if c = CHR ''M'' then zero_pad 2 (show_nat (minute dt))
     else if c = CHR ''S'' then zero_pad 2 (show_nat (second dt))
     else [CHR ''%'', c])"

fun strftime :: "string \<Rightarrow> datetime \<Rightarrow> string" where
  "strftime [] dt = []"
| "strftime [c] dt = [c]"
| "strftime (c # d # cs) dt =
    (if c = CHR ''%'' then directive d dt @ strftime cs dt else c # strftime (d # cs) dt)"

text \<open>What \<open>datetime.now()\<close> can return: a calendar date and a time of day.\<close>

definition valid_datetime :: "datetime \<Rightarrow> bool" where
  "valid_datetime dt =
    (1000 \<le> year dt \<and> year dt \<le> 9999 \<and> 1 \<le> month dt \<and> month dt \<le> 12 \<and>
     1 \<le> day dt \<and> day dt \<le> 31 \<and> hour dt < 24 \<and> minute dt < 60 \<and> second dt < 60)"

text \<open>
  A string has a shape when it has the shape's length, a digit wherever the shape has
  \<open>d\<close>, and the shape's own character everywhere else.
\<close>

fun has_shape :: "string \<Rightarrow> string \<Rightarrow> bool" where
  "has_shape [] [] = True"
| "has_shape (p # ps) (c # cs) = ((if p = CHR ''d'' then isdigit c else c = p) \<and> has_shape ps cs)"
| "has_shape _ _ = False"

subsection \<open>\<open>log_orientation\<close>\<close>

text \<open>
  What the environment supplies to one pass of the loop body: the two sensor reads, the
  value of \<open>time.time()\<close> and the value of \<open>datetime.now()\<close>. Setup reads the clock and
  the date once, and opening the file succeeds when the log directory is there.
\<close>

record reading =
  roll :: real
  pitch :: real
  yaw :: real
  acc_x :: real
  acc_y :: real
  acc_z :: real
  clock :: real
  now :: datetime

record setup_env =
  start_now :: datetime
  start_clock :: real
  can_open :: bool

datatype status = Running | Waiting | Exited nat | Crashed py_error

text \<open>
  The process: the world, the local variables of \<open>log_orientation\<close>, the rows written to
  the open file, and whether the process runs, waits for ever in a read, or has ended.
  \<open>taken\<close> is not a variable of the script: it records, oldest first, the readings the
  loop has taken from the sensor, so that the rows of the file can be compared with them.
\<close>

record logger =
  io :: world
  name :: string
  mode :: string
  start_time :: real
  file_path :: string
  file_rows :: "field list list"
  file_closed :: bool
  taken :: "reading list"
  status :: status

definition csv_header :: "field list" where
  "csv_header = map Str [''roll'', ''pitch'', ''yaw'', ''x'', ''y'', ''z'',
                         ''timestamp'', ''runtime'', ''mode'', ''name'']"

definition log_path :: "string \<Rightarrow> datetime \<Rightarrow> string" where
  "log_path nm dt =
    ''./log/'' @ nm @ ''_'' @ ''log'' @ ''_'' @ strftime ''%m_%d_%Y_%H_%M_%S'' dt @ ''.csv''"

text \<open>Everything before the \<open>while\<close> loop.\<close>

definition log_orientation_setup :: "setup_env \<Rightarrow> world \<Rightarrow> logger outcome" where
  "log_orientation_setup env w =
    (case set_name w of
       Blocks w1 \<Rightarrow> Blocks w1
     | Raises e w1 \<Rightarrow> Raises e w1
     | Returns nm w1 \<Rightarrow>
        (case select_mode w1 of
           Blocks w2 \<Rightarrow> Blocks w2
         | Raises e w2 \<Rightarrow> Raises e w2
         | Returns m w2 \<Rightarrow>
            (if can_open env then
               Returns \<lparr>io = w2, name = nm, mode = m, start_time = start_clock env,
                        file_path = log_path nm (start_now env), file_rows = [csv_header],
                        file_closed = False, taken = [], status = Running\<rparr> w2
             else Raises (FileNotFoundError (log_path nm (start_now env))) w2)))"

text \<open>The list \<open>data\<close> that one pass of the loop builds.\<close>

definition sample_row :: "reading \<Rightarrow> real \<Rightarrow> string \<Rightarrow> string \<Rightarrow> field list" where
  "sample_row r start m nm =
    [FloatStr (roll r), FloatStr (pitch r), FloatStr (yaw r),
     FloatStr (acc_x r), FloatStr (acc_y r), FloatStr (acc_z r),
     Str (strftime ''%m/%d/%Y_%H:%M:%S'' (now r)),
     Float (clock r - start), Str m, Str nm]"

text \<open>
  An exception that nothing catches leaves the \<open>with\<close> block, which closes the file, and
  ends the process.
\<close>

definition uncaught :: "py_error \<Rightarrow> world \<Rightarrow> logger \<Rightarrow> logger" where
  "uncaught e w s =
    s\<lparr>io := w, file_closed := True,
      status := (case e of SystemExit n \<Rightarrow> Exited n | _ \<Rightarrow> Crashed e)\<rparr>"

text \<open>One pass of the body of \<open>while True\<close>.\<close>

definition iteration :: "reading \<Rightarrow> logger \<Rightarrow> logger" where
  "iteration r s =
    (case keyboard_handler (io s) of
       Blocks w \<Rightarrow> s\<lparr>io := w, status := Waiting\<rparr>
     | Raises e w \<Rightarrow> uncaught e w s
     | Returns pending w \<Rightarrow>
        (if pending then
           (case select_mode w of
              Blocks w' \<Rightarrow> s\<lparr>io := w', status := Waiting\<rparr>
            | Raises e w' \<Rightarrow> uncaught e w' s
            | Returns m w' \<Rightarrow> s\<lparr>io := w', mode := m\<rparr>)
         else
           (case display_mode (mode s) w of
              Blocks w' \<Rightarrow> s\<lparr>io := w', status := Waiting\<rparr>
            | Raises e w' \<Rightarrow> uncaught e w' s
            | Returns u w' \<Rightarrow>
               s\<lparr>io := w'\<lparr>stdout := stdout w' @ [Echo (sample_row r (start_time s) (mode s) (name s))]\<rparr>,
                 file_rows := file_rows s @ [sample_row r (start_time s) (mode s) (name s)],
                 taken := taken s @ [r]\<rparr>)))"

text \<open>
  What can happen to the running process: the operator finishes typing a line, which then
  waits on the descriptor; the loop makes one pass; or SIGINT arrives and its handler runs.
  A process that waits in a read still takes the signal; one that has ended takes nothing.
\<close>

datatype event = LineTyped | Iteration reading | Sigint

definition line_typed :: "world \<Rightarrow> world" where
  "line_typed w =
    (case later w of
       [] \<Rightarrow> w
     | l # ls \<Rightarrow> w\<lparr>queue := queue w @ [l], later := ls\<rparr>)"

definition interrupt :: "logger \<Rightarrow> logger" where
  "interrupt s =
    (case sigint_handler (io s) of
       Returns u w \<Rightarrow> s\<lparr>io := w\<rparr>
     | Blocks w \<Rightarrow> s\<lparr>io := w, status := Waiting\<rparr>
     | Raises e w \<Rightarrow> uncaught e w s)"

definition step :: "event \<Rightarrow> logger \<Rightarrow> logger" where
  "step e s =
    (case status s of
       Running \<Rightarrow>
        (case e of
           LineTyped \<Rightarrow> s\<lparr>io := line_typed (io s)\<rparr>
         | Iteration r \<Rightarrow> iteration r s
         | Sigint \<Rightarrow> interrupt s)
     | Waiting \<Rightarrow>
        (case e of
           LineTyped \<Rightarrow> s\<lparr>io := line_typed (io s)\<rparr>
         | Iteration r \<Rightarrow> s
         | Sigint \<Rightarrow> interrupt s)
     | Exited n \<Rightarrow> s
     | Crashed err \<Rightarrow> s)"

fun run :: "event list \<Rightarrow> logger \<Rightarrow> logger" where
  "run [] s = s"
| "run (e # es) s = run es (step e s)"

subsection \<open>Notions used to state the properties\<close>

text \<open>The world as a call left it, whatever the outcome.\<close>

fun world_of :: "'a outcome \<Rightarrow> world" where
  "world_of (Returns v w) = w"
| "world_of (Raises e w) = w"
| "world_of (Blocks w) = w"

text \<open>The three mode names, and the pattern that belongs to each.\<close>

definition valid_mode :: "string \<Rightarrow> bool" where
  "valid_mode m = (m = ''pick'' \<or> m = ''key'' \<or> m = ''nokey'')"

definition led_pattern :: "string \<Rightarrow> rgb list" where
  "led_pattern m =
    (if m = ''pick'' then pick_led_pattern
     else if m = ''key'' then key_led_pattern
     else nokey_led_pattern)"

text \<open>What the LED array shows: the frame written last.\<close>

definition shown :: "world \<Rightarrow> rgb list option" where
  "shown w = (if frames w = [] then None else Some (last (frames w)))"

text \<open>The operator's lines that have not been read yet, in the order they are read.\<close>

definition lines :: "world \<Rightarrow> string list" where
  "lines w = queue w @ later w"

text \<open>
  A run of rounds of the name dialogue, each a name and then an answer, in which every
  answer holds a negative token; and the prompts that a list of typed lines was asked with.
\<close>

fun rejected :: "string list \<Rightarrow> bool" where
  "rejected [] = True"
| "rejected [n] = False"
| "rejected (n # c # rest) = (negative c \<and> rejected rest)"

fun prompts :: "string list \<Rightarrow> printed list" where
  "prompts (n # c # rest) = Msg name_prompt # Msg (check_prompt n) # prompts rest"
| "prompts [n] = [Msg name_prompt]"
| "prompts [] = []"

text \<open>The readings that the passes of the loop among a list of events are given.\<close>

fun readings :: "event list \<Rightarrow> reading list" where
  "readings [] = []"
| "readings (Iteration r # es) = r # readings es"
| "readings (e # es) = readings es"



text \<open>
  Concrete inputs. In \<open>typed_ahead\<close> the line end of an earlier mode choice is still in
  the buffer of \<open>sys.stdin\<close> and the operator has typed \<open>3\<close>; in \<open>fresh_line\<close> the buffer is
  empty; in \<open>only_enter\<close> the operator has hit Enter and types nothing more. \<open>operator\<close> is a whole session's typing: a name, its confirmation, mode 2, and
  later a 3. \<open>operator_four\<close> answers the mode prompt with a 4, and \<open>second_try\<close>
  rejects the first name typed.
\<close>

definition typed_ahead :: world where
  "typed_ahead = \<lparr>buf = [nl], queue = [''3''], later = [], stdout = [], frames = []\<rparr>"

definition fresh_line :: world where
  "fresh_line = \<lparr>buf = [], queue = [''3''], later = [], stdout = [], frames = []\<rparr>"


definition operator :: world where
  "operator = \<lparr>buf = [], queue = [], later = [''Alice'', ''y'', ''2'', ''3''], stdout = [],
               frames = []\<rparr>"

definition operator_four :: world where
  "operator_four = \<lparr>buf = [], queue = [], later = [''Alice'', ''y'', ''4''], stdout = [],
                    frames = []\<rparr>"

definition second_try :: world where
  "second_try = \<lparr>buf = [], queue = [], later = [''Bob'', ''no'', ''Alice'', ''y''], stdout = [],
                 frames = []\<rparr>"

definition noon :: datetime where
  "noon = \<lparr>year = 2021, month = 3, day = 7, hour = 12, minute = 0, second = 5\<rparr>"

definition at_start :: setup_env where
  "at_start = \<lparr>start_now = noon, start_clock = 100, can_open = True\<rparr>"

definition at_rest :: "real \<Rightarrow> reading" where
  "at_rest t = \<lparr>roll = 0, pitch = 0, yaw = 90, acc_x = 0, acc_y = 0, acc_z = 1, clock = t,
                now = noon\<rparr>"

text \<open>The state that setup reaches on \<open>operator\<close>'s typing, at the start \<open>at_start\<close>.\<close>

definition after_setup :: logger where
  "after_setup =
    \<lparr>io = \<lparr>buf = [nl], queue = [], later = [''3''],
            stdout = [Msg name_prompt, Msg (check_prompt ''Alice''), Msg mode_prompt],
            frames = []\<rparr>,
      name = ''Alice'', mode = ''key'', start_time = 100,
      file_path = ''./log/Alice_log_03_07_2021_12_00_05.csv'',
      file_rows = [csv_header], file_closed = False, taken = [], status = Running\<rparr>"

text \<open>The same state once the operator's \<open>3\<close> has reached the descriptor.\<close>

definition line_waiting :: logger where
  "line_waiting = after_setup\<lparr>io := (io after_setup)\<lparr>queue := [''3''], later := []\<rparr>\<rparr>"

text \<open>The state after setup with a \<open>4\<close> typed during sampling.\<close>

definition four_waiting :: logger where
  "four_waiting = after_setup\<lparr>io := (io after_setup)\<lparr>queue := [''4''], later := []\<rparr>\<rparr>"

section \<open>Properties\<close>

subsection \<open>The pattern renderer\<close>

lemma pattern_lengths:
  "length pick_led_pattern = 64" "length key_led_pattern = 64" "length nokey_led_pattern = 64"
  by (simp_all add: pick_led_pattern_def key_led_pattern_def nokey_led_pattern_def)

lemma set_pixels_pick:
  "set_pixels pick_led_pattern w = Returns () (w\<lparr>frames := frames w @ [pick_led_pattern]\<rparr>)"
  by (simp add: set_pixels_def pick_led_pattern_def black_def blue_def cyan_def pink_def
        yellow_def)

lemma set_pixels_key:
  "set_pixels key_led_pattern w = Returns () (w\<lparr>frames := frames w @ [key_led_pattern]\<rparr>)"
  by (simp add: set_pixels_def key_led_pattern_def black_def yellow_def)

lemma set_pixels_nokey:
  "set_pixels nokey_led_pattern w = Returns () (w\<lparr>frames := frames w @ [nokey_led_pattern]\<rparr>)"
  by (simp add: set_pixels_def nokey_led_pattern_def black_def yellow_def red_def)

lemma led_pattern_length: "length (led_pattern m) = 64"
  by (simp add: led_pattern_def pattern_lengths)

lemma display_mode_valid:
  "valid_mode m \<Longrightarrow> display_mode m w = Returns () (w\<lparr>frames := frames w @ [led_pattern m]\<rparr>)"
  by (auto simp: valid_mode_def display_mode_def pattern_of_mode_def led_pattern_def
        set_pixels_pick set_pixels_key set_pixels_nokey)

text \<open>
  C9. For each of the three modes, \<open>display_mode\<close> looks up the one pattern of that mode,
  which has 64 entries, and writes it to the LED array as a single frame, changing nothing
  else. The frame depends on the mode alone: whatever the world was, the array then shows
  that pattern, and a second call with the same mode shows the same pattern again.
\<close>

theorem display_mode_fixed_pattern:
  assumes "m \<in> {''pick'', ''key'', ''nokey''}"
  shows "pattern_of_mode m = Some (led_pattern m) \<and> length (led_pattern m) = 64 \<and>
         display_mode m w = Returns () (w\<lparr>frames := frames w @ [led_pattern m]\<rparr>) \<and>
         shown (w\<lparr>frames := frames w @ [led_pattern m]\<rparr>) = Some (led_pattern m) \<and>
         display_mode m (w\<lparr>frames := frames w @ [led_pattern m]\<rparr>) =
           Returns () (w\<lparr>frames := frames w @ [led_pattern m, led_pattern m]\<rparr>) \<and>
         shown (w\<lparr>frames := frames w @ [led_pattern m, led_pattern m]\<rparr>) = Some (led_pattern m)"
proof -
  from assms have v: "valid_mode m" by (auto simp: valid_mode_def)
  from assms have "pattern_of_mode m = Some (led_pattern m)"
    by (auto simp: pattern_of_mode_def led_pattern_def)
  then show ?thesis
    by (simp add: display_mode_valid [OF v] led_pattern_length shown_def)
qed

theorem display_mode_fixed_pattern_witness:
  "display_mode ''key'' typed_ahead =
     Returns () (typed_ahead\<lparr>frames := frames typed_ahead @ [key_led_pattern]\<rparr>) \<and>
   shown (typed_ahead\<lparr>frames := frames typed_ahead @ [key_led_pattern]\<rparr>) = Some key_led_pattern"
  using display_mode_fixed_pattern [of "''key''" typed_ahead]
  by (simp add: led_pattern_def)

subsection \<open>The mode selector\<close>

lemma chars_print_msg [simp]: "chars (print_msg m w) = chars w"
  by (simp add: chars_def print_msg_def)

lemma read_digit_no_digit:
  "\<forall>c\<in>set (chars w). \<not> isdigit c \<Longrightarrow> \<exists>w'. read_digit w = Blocks w'"
proof (induction w rule: read_digit.induct)
  case (1 w)
  show ?case
  proof (cases "stdin_read1 w")
    case None
    then show ?thesis by (subst read_digit.simps) simp
  next
    case (Some p)
    obtain c w1 where p: "p = (c, w1)" by (cases p)
    from Some p have ch: "chars w = c # chars w1" by (simp add: stdin_read1_chars)
    with "1.prems" have nd: "\<not> isdigit c" and rest: "\<forall>c\<in>set (chars w1). \<not> isdigit c"
      by auto
    from "1.IH" [OF Some p [symmetric] nd rest] obtain w' where "read_digit w1 = Blocks w'" ..
    with Some p nd show ?thesis by (subst read_digit.simps) simp
  qed
qed


lemma select_mode_valid:
  "select_mode w = Returns m w' \<Longrightarrow> valid_mode m"
  by (auto simp: select_mode_def mode_of_digit_def valid_mode_def
           split: outcome.splits option.splits if_splits)

lemma stdin_read1_frames:
  "stdin_read1 w = Some (c, w') \<Longrightarrow> frames w' = frames w"
  by (auto simp: stdin_read1_def pull_def split: list.splits option.splits)

lemma read_digit_frames: "frames (world_of (read_digit w)) = frames w"
proof (induction w rule: read_digit.induct)
  case (1 w)
  show ?case
  proof (cases "stdin_read1 w")
    case None
    then show ?thesis by (subst read_digit.simps) simp
  next
    case (Some p)
    obtain c w1 where p: "p = (c, w1)" by (cases p)
    with Some have f: "frames w1 = frames w" by (simp add: stdin_read1_frames)
    show ?thesis
    proof (cases "isdigit c")
      case True
      with Some p f show ?thesis by (subst read_digit.simps) simp
    next
      case False
      from "1.IH" [OF Some p [symmetric] False] f Some p False show ?thesis
        by (subst read_digit.simps) simp
    qed
  qed
qed

lemma select_mode_frames: "frames (world_of (select_mode w)) = frames w"
  using read_digit_frames [of "print_msg mode_prompt w"]
  by (cases "read_digit (print_msg mode_prompt w)")
     (auto simp: select_mode_def print_msg_def split: option.splits)



subsection \<open>The input watcher\<close>

lemma split_line_append:
  "nl \<in> set s \<Longrightarrow> fst (split_line s) @ snd (split_line s) = s"
proof -
  assume a: "nl \<in> set s"
  then have "dropWhile (\<lambda>c. c \<noteq> nl) s \<noteq> []" by (simp add: dropWhile_eq_Nil_conv)
  moreover have "hd (dropWhile (\<lambda>c. c \<noteq> nl) s) = nl"
    using hd_dropWhile[of "\<lambda>c. c \<noteq> nl" s] calculation by auto
  ultimately have "dropWhile (\<lambda>c. c \<noteq> nl) s = nl # tl (dropWhile (\<lambda>c. c \<noteq> nl) s)"
    by (cases "dropWhile (\<lambda>c. c \<noteq> nl) s") auto
  then have "takeWhile (\<lambda>c. c \<noteq> nl) s @ nl # tl (dropWhile (\<lambda>c. c \<noteq> nl) s) = s"
    using takeWhile_dropWhile_id[of "\<lambda>c. c \<noteq> nl" s] by simp
  then show ?thesis by (simp add: split_line_def)
qed

lemma stdin_readline_chars:
  "stdin_readline w = Some (line, w') \<Longrightarrow> chars w = line @ chars w'"
proof -
  assume a: "stdin_readline w = Some (line, w')"
  show ?thesis
  proof (cases "nl \<in> set (buf w)")
    case True
    with a have "line = fst (split_line (buf w))" "w' = w\<lparr>buf := snd (split_line (buf w))\<rparr>"
      by (auto simp: stdin_readline_def)
    with split_line_append[OF True] show ?thesis
      by (simp add: chars_def flip: append_assoc)
  next
    case False
    with a obtain l w1 where p: "pull w = Some (l, w1)"
      and line: "line = fst (split_line (buf w @ l @ [nl]))"
      and w': "w' = w1\<lparr>buf := snd (split_line (buf w @ l @ [nl]))\<rparr>"
      by (auto simp: stdin_readline_def split: option.splits)
    have "nl \<in> set (buf w @ l @ [nl])" by simp
    from split_line_append[OF this] line w'
    have "line @ buf w' = buf w @ l @ [nl]" by simp
    moreover from p have "queue w @ later w = l # (queue w1 @ later w1)"
      by (auto simp: pull_def split: list.splits)
    moreover from w' have "queue w' = queue w1" "later w' = later w1" by simp_all
    ultimately show ?thesis
      by (simp add: chars_def flip: append_assoc)
  qed
qed

lemma stdin_readline_line:
  "stdin_readline w = Some (line, w') \<Longrightarrow> \<exists>body. line = body @ [nl] \<and> nl \<notin> set body"
  by (auto simp: stdin_readline_def split_line_def split: if_splits option.splits
           dest: set_takeWhileD)

text \<open>
  C6, as the code has it. \<open>keyboard_handler\<close> checks the descriptor without waiting. With
  no line queued it returns false and leaves the world as it was. With a line queued it
  returns true, and before that it has itself read one line from \<open>sys.stdin\<close> and dropped it:
  the characters still to come are those that came after that line. On a terminal that
  delivers whole lines it does not wait in either case.
\<close>

theorem keyboard_handler_reads_line:
  "(queue w = [] \<longrightarrow> keyboard_handler w = Returns False w) \<and>
   (queue w \<noteq> [] \<longrightarrow>
      (\<exists>body w'. keyboard_handler w = Returns True w' \<and> nl \<notin> set body \<and>
          chars w = body @ [nl] @ chars w' \<and> stdout w' = stdout w \<and> frames w' = frames w))"
proof (intro conjI impI)
  assume "queue w = []"
  then show "keyboard_handler w = Returns False w"
    by (simp add: keyboard_handler_def select_stdin_def)
next
  assume q: "queue w \<noteq> []"
  then obtain l w1 where "pull w = Some (l, w1)"
    by (cases "queue w") (auto simp: pull_def)
  then obtain line w' where r: "stdin_readline w = Some (line, w')"
    by (cases "nl \<in> set (buf w)") (auto simp: stdin_readline_def)
  from stdin_readline_line[OF r] obtain body where b: "line = body @ [nl]" "nl \<notin> set body"
    by blast
  have keep: "stdout w' = stdout w \<and> frames w' = frames w"
    using r by (auto simp: stdin_readline_def pull_def split: if_splits option.splits list.splits)
  from stdin_readline_chars[OF r] b have "chars w = body @ [nl] @ chars w'" by simp
  with q r b keep show "\<exists>body w'. keyboard_handler w = Returns True w' \<and> nl \<notin> set body \<and>
          chars w = body @ [nl] @ chars w' \<and> stdout w' = stdout w \<and> frames w' = frames w"
    by (auto simp: keyboard_handler_def select_stdin_def)
qed

theorem keyboard_handler_reads_line_witness:
  "keyboard_handler operator = Returns False operator \<and>
   (\<exists>body w'. keyboard_handler fresh_line = Returns True w' \<and> nl \<notin> set body \<and>
      chars fresh_line = body @ [nl] @ chars w' \<and> stdout w' = stdout fresh_line \<and>
      frames w' = frames fresh_line)"
proof -
  have "queue operator = []" by (simp add: operator_def)
  moreover have "queue fresh_line \<noteq> []" by (simp add: fresh_line_def)
  ultimately show ?thesis
    using keyboard_handler_reads_line [of operator, THEN conjunct1]
      keyboard_handler_reads_line [of fresh_line, THEN conjunct2]
    by blast
qed

text \<open>
  The claim as written fails where it says that the pending input is left for the caller
  to read: with the line \<open>3\<close> queued and nothing buffered, the handler returns true and the
  line is gone.
\<close>

theorem keyboard_handler_consumes_pending_line:
  "lines fresh_line = [''3''] \<and>
   keyboard_handler fresh_line = Returns True (fresh_line\<lparr>queue := []\<rparr>) \<and>
   lines (fresh_line\<lparr>queue := []\<rparr>) = []"
  by (simp add: keyboard_handler_def select_stdin_def stdin_readline_def split_line_def
        pull_def fresh_line_def lines_def nl_def)

text \<open>
  C10, as the code has it. When input is pending, the line that \<open>keyboard_handler\<close> reads
  and drops is the first line of what \<open>sys.stdin\<close> holds. If the buffer of \<open>sys.stdin\<close>
  still has a line end in it, as it has after every mode choice (the digit is taken, its
  line end stays), the handler drops the buffered text up to that line end and the
  operator's queued lines all remain for \<open>select_mode\<close>. If the buffer has no line end, the
  handler drops the first queued line, \<open>select_mode\<close> never sees it, and with nothing else
  typed \<open>select_mode\<close> waits.
\<close>

theorem keyboard_handler_which_line:
  "(queue w \<noteq> [] \<and> nl \<in> set (buf w) \<longrightarrow>
      keyboard_handler w = Returns True (w\<lparr>buf := tl (dropWhile (\<lambda>c. c \<noteq> nl) (buf w))\<rparr>) \<and>
      lines (w\<lparr>buf := tl (dropWhile (\<lambda>c. c \<noteq> nl) (buf w))\<rparr>) = lines w) \<and>
   (queue w = l # q \<and> nl \<notin> set (buf w) \<and> nl \<notin> set l \<longrightarrow>
      keyboard_handler w = Returns True (w\<lparr>queue := q, buf := []\<rparr>) \<and>
      lines (w\<lparr>queue := q, buf := []\<rparr>) = q @ later w \<and>
      (q = [] \<and> later w = [] \<longrightarrow> (\<exists>w'. select_mode (w\<lparr>queue := q, buf := []\<rparr>) = Blocks w')))"
proof (intro conjI impI)
  assume "queue w \<noteq> [] \<and> nl \<in> set (buf w)"
  then show "keyboard_handler w =
      Returns True (w\<lparr>buf := tl (dropWhile (\<lambda>c. c \<noteq> nl) (buf w))\<rparr>)"
    by (simp add: keyboard_handler_def select_stdin_def stdin_readline_def split_line_def)
  show "lines (w\<lparr>buf := tl (dropWhile (\<lambda>c. c \<noteq> nl) (buf w))\<rparr>) = lines w"
    by (simp add: lines_def)
next
  assume a: "queue w = l # q \<and> nl \<notin> set (buf w) \<and> nl \<notin> set l"
  then show "keyboard_handler w = Returns True (w\<lparr>queue := q, buf := []\<rparr>)"
    by (simp add: keyboard_handler_def select_stdin_def stdin_readline_def split_line_def
          pull_def dropWhile_append)
  show "lines (w\<lparr>queue := q, buf := []\<rparr>) = q @ later w"
    by (simp add: lines_def)
  assume "q = [] \<and> later w = []"
  then have "chars (w\<lparr>queue := q, buf := []\<rparr>) = []"
    by (simp add: chars_def)
  then have "\<forall>c\<in>set (chars (print_msg mode_prompt (w\<lparr>queue := q, buf := []\<rparr>))). \<not> isdigit c"
    by simp
  from read_digit_no_digit [OF this]
  show "\<exists>w'. select_mode (w\<lparr>queue := q, buf := []\<rparr>) = Blocks w'"
    by (auto simp: select_mode_def)
qed

theorem keyboard_handler_which_line_witness:
  "keyboard_handler typed_ahead = Returns True (typed_ahead\<lparr>buf := []\<rparr>) \<and>
   lines (typed_ahead\<lparr>buf := []\<rparr>) = lines typed_ahead \<and>
   keyboard_handler fresh_line = Returns True (fresh_line\<lparr>queue := [], buf := []\<rparr>) \<and>
   (\<exists>w'. select_mode (fresh_line\<lparr>queue := [], buf := []\<rparr>) = Blocks w')"
proof -
  have a: "queue typed_ahead \<noteq> [] \<and> nl \<in> set (buf typed_ahead)"
    by (simp add: typed_ahead_def)
  have b: "queue fresh_line = ''3'' # [] \<and> nl \<notin> set (buf fresh_line) \<and> nl \<notin> set ''3''"
    by (simp add: fresh_line_def nl_def)
  have c: "later fresh_line = []" "tl (dropWhile (\<lambda>c. c \<noteq> nl) (buf typed_ahead)) = []"
    by (simp_all add: fresh_line_def typed_ahead_def)
  from keyboard_handler_which_line [of typed_ahead, THEN conjunct1, rule_format, OF a]
    keyboard_handler_which_line [of fresh_line "''3''" "[]", THEN conjunct2, rule_format, OF b]
    keyboard_handler_which_line [of fresh_line "''3''" "[]", THEN conjunct2, THEN mp, OF b]
    c
  show ?thesis by simp
qed

text \<open>
  The claim as written fails in the session of \<open>operator\<close>: after setup has taken the digit
  2, its line end is still buffered. The operator types \<open>3\<close> and nothing more. The handler
  returns true with the line \<open>3\<close> still queued, and the same pass of the loop ends in mode
  nokey, still running: \<open>select_mode\<close> has read the line and has not waited.
\<close>

theorem typed_line_reaches_select_mode:
  "log_orientation_setup at_start operator = Returns after_setup (io after_setup) \<and>
   queue (io (step LineTyped after_setup)) = [''3''] \<and>
   later (io (step LineTyped after_setup)) = [] \<and>
   keyboard_handler (io (step LineTyped after_setup)) =
     Returns True ((io (step LineTyped after_setup))\<lparr>buf := []\<rparr>) \<and>
   mode (step (Iteration (at_rest 101)) (step LineTyped after_setup)) = ''nokey'' \<and>
   status (step (Iteration (at_rest 101)) (step LineTyped after_setup)) = Running"
  by (simp add: select_mode_def print_msg_def read_digit.simps stdin_read1_def pull_def
        isdigit_def mode_of_digit_def log_orientation_setup_def set_name_def
        set_name_loop.simps negative_def input_line_def operator_def at_start_def
        log_path_def noon_def directive_def zero_pad_def show_nat.simps digit_char_def
        after_setup_def step_def line_typed_def iteration_def keyboard_handler_def
        select_stdin_def stdin_readline_def split_line_def)

subsection \<open>The name dialogue\<close>

lemma input_line_lines:
  "input_line p w = Returns l w' \<Longrightarrow>
     lines w = l # lines w' \<and> stdout w' = stdout w @ [Msg p] \<and> frames w' = frames w \<and> buf w' = buf w"
  by (auto simp: input_line_def print_msg_def pull_def lines_def split: list.splits option.splits)

lemma input_line_Cons:
  "lines w = l # rest \<Longrightarrow> \<exists>w'. input_line p w = Returns l w' \<and> lines w' = rest \<and> stdout w' = stdout w @ [Msg p]"
  by (cases "queue w") (auto simp: input_line_def print_msg_def pull_def lines_def split: list.splits option.splits)

lemma input_line_no_raise: "input_line p w \<noteq> Raises e w'"
  by (simp add: input_line_def split: option.splits)

lemma set_name_loop_no_raise: "set_name_loop n c w \<noteq> Raises e w'"
proof (induction n c w rule: set_name_loop.induct)
  case (1 name name_check w)
  show ?case
    apply (subst set_name_loop.simps)
    using 1 by (auto simp: input_line_no_raise split: outcome.splits)
qed

lemma set_name_loop_returns:
  "set_name_loop n c w = Returns (nm, chk) w' \<Longrightarrow> negative c \<Longrightarrow>
     \<exists>pre. lines w = pre @ nm # chk # lines w' \<and> rejected pre \<and> \<not> negative chk"
proof (induction n c w rule: set_name_loop.induct)
  case (1 name name_check w)
  from "1.prems" obtain n1 w1 c1 w2 where
    i1: "input_line name_prompt w = Returns n1 w1" and
    i2: "input_line (check_prompt n1) w1 = Returns c1 w2" and
    r: "set_name_loop n1 c1 w2 = Returns (nm, chk) w'"
    by (subst (asm) set_name_loop.simps) (auto split: outcome.splits)
  from i1 i2 have l: "lines w = n1 # c1 # lines w2" by (auto dest!: input_line_lines)
  show ?case
  proof (cases "negative c1")
    case True
    from "1.IH"[OF "1.prems"(2) i1 i2 r True] obtain pre where
      "lines w2 = pre @ nm # chk # lines w'" "rejected pre" "\<not> negative chk" by blast
    with l True have "lines w = (n1 # c1 # pre) @ nm # chk # lines w' \<and> rejected (n1 # c1 # pre) \<and> \<not> negative chk"
      by simp
    then show ?thesis by blast
  next
    case False
    with r have "nm = n1" "chk = c1" "w' = w2" by (subst (asm) set_name_loop.simps, simp)+
    with l False have "lines w = [] @ nm # chk # lines w' \<and> rejected [] \<and> \<not> negative chk" by simp
    then show ?thesis by blast
  qed
qed

lemma set_name_loop_accepts:
  "rejected pre \<Longrightarrow> lines w = pre @ nm # chk # rest \<Longrightarrow> \<not> negative chk \<Longrightarrow> negative c \<Longrightarrow>
     \<exists>w'. set_name_loop n c w = Returns (nm, chk) w' \<and> lines w' = rest \<and>
          stdout w' = stdout w @ prompts (pre @ [nm, chk])"
proof (induction pre arbitrary: w n c rule: rejected.induct)
  case 1
  from input_line_Cons[of w nm "chk # rest" name_prompt] "1.prems"
  obtain w1 where w1: "input_line name_prompt w = Returns nm w1" "lines w1 = chk # rest"
    "stdout w1 = stdout w @ [Msg name_prompt]" by auto
  from input_line_Cons[OF w1(2), of "check_prompt nm"]
  obtain w2 where w2: "input_line (check_prompt nm) w1 = Returns chk w2" "lines w2 = rest"
    "stdout w2 = stdout w1 @ [Msg (check_prompt nm)]" by auto
  have "set_name_loop nm chk w2 = Returns (nm, chk) w2"
    using "1.prems"(3) by (subst set_name_loop.simps) simp
  with w1 w2 "1.prems"(4) have "set_name_loop n c w = Returns (nm, chk) w2"
    by (subst set_name_loop.simps) simp
  with w1 w2 show ?case by auto
next
  case (2 n)
  then show ?case by simp
next
  case (3 n1 c1 pre)
  from input_line_Cons[of w n1 "c1 # pre @ nm # chk # rest" name_prompt] "3.prems"
  obtain w1 where w1: "input_line name_prompt w = Returns n1 w1" "lines w1 = c1 # pre @ nm # chk # rest"
    "stdout w1 = stdout w @ [Msg name_prompt]" by auto
  from input_line_Cons[OF w1(2), of "check_prompt n1"]
  obtain w2 where w2: "input_line (check_prompt n1) w1 = Returns c1 w2" "lines w2 = pre @ nm # chk # rest"
    "stdout w2 = stdout w1 @ [Msg (check_prompt n1)]" by auto
  from "3.prems"(1) have neg: "negative c1" and rej: "rejected pre" by simp_all
  from "3.IH"[OF rej w2(2) "3.prems"(3) neg, of n1]
  obtain w' where w': "set_name_loop n1 c1 w2 = Returns (nm, chk) w'" "lines w' = rest"
    "stdout w' = stdout w2 @ prompts (pre @ [nm, chk])" by blast
  from w1 w2 w' "3.prems"(4) have "set_name_loop n c w = Returns (nm, chk) w'"
    by (subst set_name_loop.simps) simp
  with w1 w2 w' show ?case by auto
qed

text \<open>
  C7. \<open>set_name\<close> reads a name and an answer, again and again while the answer holds
  \<open>N\<close> or \<open>n\<close>. Whenever it returns, the name it returns is the one typed last, the answer
  typed after it holds no negative token, and every answer before held one. Whenever the
  operator's lines are rejected rounds followed by a name and an answer without a
  negative token, it returns that name, having prompted twice for every round. It never
  raises: a rejected answer only leads to the next round.
\<close>

theorem set_name_confirmed:
  "(\<forall>nm w'. set_name w = Returns nm w' \<longrightarrow>
      (\<exists>pre chk. lines w = pre @ nm # chk # lines w' \<and> rejected pre \<and> \<not> negative chk)) \<and>
   (\<forall>pre nm chk rest. lines w = pre @ nm # chk # rest \<and> rejected pre \<and> \<not> negative chk \<longrightarrow>
      (\<exists>w'. set_name w = Returns nm w' \<and> lines w' = rest \<and>
            stdout w' = stdout w @ prompts (pre @ [nm, chk]))) \<and>
   (\<forall>e w'. set_name w \<noteq> Raises e w')"
proof (intro conjI allI impI)
  fix nm w'
  assume "set_name w = Returns nm w'"
  then obtain chk where "set_name_loop [] ''N'' w = Returns (nm, chk) w'"
    by (auto simp: set_name_def split: outcome.splits)
  from set_name_loop_returns[OF this]
  show "\<exists>pre chk. lines w = pre @ nm # chk # lines w' \<and> rejected pre \<and> \<not> negative chk"
    by (auto simp: negative_def)
next
  fix pre nm chk rest
  assume a: "lines w = pre @ nm # chk # rest \<and> rejected pre \<and> \<not> negative chk"
  have "negative ''N''" by (simp add: negative_def)
  from set_name_loop_accepts[of pre w nm chk rest "''N''" "[]"] a this
  show "\<exists>w'. set_name w = Returns nm w' \<and> lines w' = rest \<and>
            stdout w' = stdout w @ prompts (pre @ [nm, chk])"
    by (auto simp: set_name_def)
next
  fix e w'
  show "set_name w \<noteq> Raises e w'"
    using set_name_loop_no_raise[of "[]" "''N''" w]
    by (auto simp: set_name_def split: outcome.splits)
qed

theorem set_name_confirmed_witness:
  "lines second_try = [''Bob'', ''no''] @ ''Alice'' # ''y'' # [] \<and>
   (\<exists>w'. set_name second_try = Returns ''Alice'' w' \<and> lines w' = [] \<and>
      stdout w' = stdout second_try @ prompts ([''Bob'', ''no''] @ [''Alice'', ''y'']) \<and>
      (\<exists>pre chk. lines second_try = pre @ ''Alice'' # chk # lines w' \<and> rejected pre \<and>
         \<not> negative chk))"
proof -
  have a: "lines second_try = [''Bob'', ''no''] @ ''Alice'' # ''y'' # [] \<and>
      rejected [''Bob'', ''no''] \<and> \<not> negative ''y''"
    by (simp add: second_try_def lines_def negative_def)
  from set_name_confirmed [of second_try, THEN conjunct2, THEN conjunct1, rule_format, OF a]
  obtain w' where w': "set_name second_try = Returns ''Alice'' w'" "lines w' = []"
    "stdout w' = stdout second_try @ prompts ([''Bob'', ''no''] @ [''Alice'', ''y''])"
    by blast
  from set_name_confirmed [of second_try, THEN conjunct1, rule_format, OF w'(1)] a w'
  show ?thesis by blast
qed

subsection \<open>The sampling loop\<close>

lemma uncaught_fields [simp]:
  "file_rows (uncaught e w s) = file_rows s" "taken (uncaught e w s) = taken s"
  "mode (uncaught e w s) = mode s" "name (uncaught e w s) = name s"
  "start_time (uncaught e w s) = start_time s" "io (uncaught e w s) = w"
  "file_closed (uncaught e w s)"
  by (simp_all add: uncaught_def)

lemma uncaught_ended [simp]:
  "status (uncaught e w s) \<noteq> Running" "status (uncaught e w s) \<noteq> Waiting"
  by (simp_all add: uncaught_def split: py_error.splits)

lemma keyboard_handler_cases:
  "(queue w = [] \<and> keyboard_handler w = Returns False w) \<or>
   (queue w \<noteq> [] \<and> (\<exists>w'. keyboard_handler w = Returns True w' \<and> frames w' = frames w))"
proof (cases "queue w")
  case Nil
  then show ?thesis by (simp add: keyboard_handler_def select_stdin_def)
next
  case (Cons l q)
  then show ?thesis
    by (cases "nl \<in> set (buf w)")
       (auto simp: keyboard_handler_def select_stdin_def stdin_readline_def pull_def)
qed

lemma iteration_pending:
  assumes "select_stdin (io s)"
  shows "file_rows (iteration r s) = file_rows s \<and> taken (iteration r s) = taken s \<and>
         frames (io (iteration r s)) = frames (io s) \<and>
         name (iteration r s) = name s \<and> start_time (iteration r s) = start_time s \<and>
         (valid_mode (mode s) \<longrightarrow> valid_mode (mode (iteration r s)))"
proof -
  from assms keyboard_handler_cases [of "io s"] obtain w1 where
    k: "keyboard_handler (io s) = Returns True w1" "frames w1 = frames (io s)"
    by (auto simp: select_stdin_def)
  from select_mode_frames [of w1] k show ?thesis
    by (cases "select_mode w1") (auto simp: iteration_def dest: select_mode_valid)
qed

lemma iteration_sample:
  assumes "\<not> select_stdin (io s)" and "valid_mode (mode s)"
  shows "iteration r s =
     s\<lparr>io := (io s)\<lparr>frames := frames (io s) @ [led_pattern (mode s)],
                    stdout := stdout (io s) @ [Echo (sample_row r (start_time s) (mode s) (name s))]\<rparr>,
       file_rows := file_rows s @ [sample_row r (start_time s) (mode s) (name s)],
       taken := taken s @ [r]\<rparr>"
  using assms keyboard_handler_cases [of "io s"]
  by (auto simp: iteration_def select_stdin_def display_mode_valid)

lemma interrupt_fields:
  "file_rows (interrupt s) = file_rows s \<and> taken (interrupt s) = taken s \<and>
   mode (interrupt s) = mode s \<and> name (interrupt s) = name s \<and>
   start_time (interrupt s) = start_time s \<and> status (interrupt s) = Exited 0 \<and>
   file_closed (interrupt s) \<and>
   io (interrupt s) = sense_clear (print_msg ''Exiting logger script'' (io s))"
  by (simp add: interrupt_def sigint_handler_def uncaught_def)

lemma step_cases:
  assumes "valid_mode (mode s)"
  shows "valid_mode (mode (step e s)) \<and> name (step e s) = name s \<and>
         start_time (step e s) = start_time s \<and>
         ((file_rows (step e s) = file_rows s \<and> taken (step e s) = taken s) \<or>
          (\<exists>r. e = Iteration r \<and> taken (step e s) = taken s @ [r] \<and>
             file_rows (step e s) = file_rows s @ [sample_row r (start_time s) (mode s) (name s)]))"
proof (cases "status s = Running")
  case False
  then show ?thesis using assms
    by (cases "status s"; cases e) (simp_all add: step_def interrupt_fields)
next
  case True
  show ?thesis
  proof (cases e)
    case LineTyped
    with True assms show ?thesis by (simp add: step_def)
  next
    case Sigint
    with True assms show ?thesis by (simp add: step_def interrupt_fields)
  next
    case (Iteration r)
    show ?thesis
    proof (cases "select_stdin (io s)")
      case p: True
      from iteration_pending [OF p, of r] assms True Iteration show ?thesis
        by (simp add: step_def)
    next
      case p: False
      from iteration_sample [OF p assms, of r] True Iteration assms show ?thesis
        by (simp add: step_def)
    qed
  qed
qed

lemma run_append:
  "valid_mode (mode s) \<Longrightarrow>
    \<exists>rms. file_rows (run es s) = file_rows s @ map (\<lambda>(r, m). sample_row r (start_time s) m (name s)) rms \<and>
          taken (run es s) = taken s @ map fst rms \<and>
          subseq (map fst rms) (readings es) \<and>
          (\<forall>m\<in>set (map snd rms). valid_mode m) \<and>
          valid_mode (mode (run es s)) \<and> name (run es s) = name s \<and>
          start_time (run es s) = start_time s"
proof (induction es arbitrary: s)
  case Nil
  then show ?case by (intro exI [of _ "[]"]) simp
next
  case (Cons e es)
  from step_cases [OF Cons.prems, of e] have
    v: "valid_mode (mode (step e s))" and n: "name (step e s) = name s"
    and t: "start_time (step e s) = start_time s"
    and c: "(file_rows (step e s) = file_rows s \<and> taken (step e s) = taken s) \<or>
          (\<exists>r. e = Iteration r \<and> taken (step e s) = taken s @ [r] \<and>
             file_rows (step e s) = file_rows s @ [sample_row r (start_time s) (mode s) (name s)])"
    by simp_all
  from Cons.IH [OF v] n t obtain rms where
    ih: "file_rows (run es (step e s)) =
           file_rows (step e s) @ map (\<lambda>(r, m). sample_row r (start_time s) m (name s)) rms"
        "taken (run es (step e s)) = taken (step e s) @ map fst rms"
        "subseq (map fst rms) (readings es)"
        "\<forall>m\<in>set (map snd rms). valid_mode m"
        "valid_mode (mode (run es (step e s)))" "name (run es (step e s)) = name s"
        "start_time (run es (step e s)) = start_time s"
    by auto
  from c show ?case
  proof
    assume "file_rows (step e s) = file_rows s \<and> taken (step e s) = taken s"
    moreover have "subseq (map fst rms) (readings (e # es))"
      using ih(3) by (cases e) (auto intro: subseq_Cons')
    ultimately show ?thesis using ih by (intro exI [of _ rms]) simp
  next
    assume "\<exists>r. e = Iteration r \<and> taken (step e s) = taken s @ [r] \<and>
             file_rows (step e s) = file_rows s @ [sample_row r (start_time s) (mode s) (name s)]"
    then obtain r where r: "e = Iteration r" "taken (step e s) = taken s @ [r]"
       "file_rows (step e s) = file_rows s @ [sample_row r (start_time s) (mode s) (name s)]"
      by blast
    with ih Cons.prems show ?thesis
      by (intro exI [of _ "(r, mode s) # rms"]) simp
  qed
qed


lemma setup_operator:
  "log_orientation_setup at_start operator = Returns after_setup (io after_setup)"
  by (simp add: select_mode_def print_msg_def read_digit.simps stdin_read1_def pull_def
        isdigit_def mode_of_digit_def log_orientation_setup_def set_name_def
        set_name_loop.simps negative_def input_line_def operator_def at_start_def
        log_path_def noon_def directive_def zero_pad_def show_nat.simps digit_char_def
        after_setup_def)

lemma run_ended: "status s = Exited n \<Longrightarrow> run es s = s"
  by (induction es) (simp_all add: step_def)

lemma run_events_append: "run (es1 @ es2) s = run es2 (run es1 s)"
  by (induction es1 arbitrary: s) simp_all

lemma quiet_run:
  "status s = Running \<Longrightarrow> valid_mode (mode s) \<Longrightarrow> queue (io s) = [] \<Longrightarrow> LineTyped \<notin> set es \<Longrightarrow>
     file_rows (run es s) =
       file_rows s @ map (\<lambda>r. sample_row r (start_time s) (mode s) (name s))
                         (readings (takeWhile (\<lambda>e. e \<noteq> Sigint) es)) \<and>
     mode (run es s) = mode s"
proof (induction es arbitrary: s)
  case Nil
  then show ?case by simp
next
  case (Cons e es)
  show ?case
  proof (cases e)
    case LineTyped
    with Cons.prems show ?thesis by simp
  next
    case Sigint
    with Cons.prems have "status (step e s) = Exited 0" "file_rows (step e s) = file_rows s"
      "mode (step e s) = mode s"
      by (simp_all add: step_def interrupt_fields)
    with run_ended [of "step e s" 0 es] Sigint show ?thesis by simp
  next
    case (Iteration r)
    from Cons.prems have np: "\<not> select_stdin (io s)" by (simp add: select_stdin_def)
    let ?s = "step e s"
    from iteration_sample [OF np Cons.prems(2), of r] Iteration Cons.prems(1)
    have st: "?s = s\<lparr>io := (io s)\<lparr>frames := frames (io s) @ [led_pattern (mode s)],
                    stdout := stdout (io s) @ [Echo (sample_row r (start_time s) (mode s) (name s))]\<rparr>,
       file_rows := file_rows s @ [sample_row r (start_time s) (mode s) (name s)],
       taken := taken s @ [r]\<rparr>"
      by (simp add: step_def)
    then have a: "status ?s = Running" "valid_mode (mode ?s)" "queue (io ?s) = []"
      using Cons.prems by simp_all
    from Cons.prems(4) have "LineTyped \<notin> set es" by simp
    from Cons.IH [OF a this] st Iteration show ?thesis by simp
  qed
qed

lemma setup_returns:
  "log_orientation_setup env w = Returns s w' \<Longrightarrow>
     valid_mode (mode s) \<and> file_rows s = [csv_header] \<and> taken s = [] \<and>
     start_time s = start_clock env \<and> status s = Running \<and> io s = w' \<and> \<not> file_closed s"
  by (auto simp: log_orientation_setup_def split: outcome.splits if_splits
        dest: select_mode_valid)

text \<open>
  C1. A pass of the loop either changes the mode or takes a sample, never both. When
  input is pending, the handler returns true and the pass does what \<open>select_mode\<close> makes
  of it: it sets the new mode, or ends on the exception, or waits; it writes no row, reads
  no sample and leaves the LED array alone. When no input is pending and the mode is one
  of the three, the pass shows the pattern of the mode, takes the reading, prints it and
  appends exactly one row, whose mode field is the current mode. From any running state,
  and so from the state a mode switch leaves, as long as no new line is typed every pass
  up to the interrupt appends one row carrying that same mode, and the mode stays.
\<close>

theorem sampling_excludes_mode_change:
  "(select_stdin (io s) \<longrightarrow>
      file_rows (iteration r s) = file_rows s \<and> taken (iteration r s) = taken s \<and>
      frames (io (iteration r s)) = frames (io s) \<and>
      (\<exists>w1. keyboard_handler (io s) = Returns True w1 \<and>
         iteration r s =
           (case select_mode w1 of
              Returns m w2 \<Rightarrow> s\<lparr>io := w2, mode := m\<rparr>
            | Raises e w2 \<Rightarrow> uncaught e w2 s
            | Blocks w2 \<Rightarrow> s\<lparr>io := w2, status := Waiting\<rparr>))) \<and>
   (\<not> select_stdin (io s) \<and> valid_mode (mode s) \<longrightarrow>
      iteration r s =
        s\<lparr>io := (io s)\<lparr>frames := frames (io s) @ [led_pattern (mode s)],
                       stdout := stdout (io s) @
                         [Echo (sample_row r (start_time s) (mode s) (name s))]\<rparr>,
          file_rows := file_rows s @ [sample_row r (start_time s) (mode s) (name s)],
          taken := taken s @ [r]\<rparr> \<and>
      sample_row r (start_time s) (mode s) (name s) ! 8 = Str (mode s)) \<and>
   (status s = Running \<and> valid_mode (mode s) \<and> queue (io s) = [] \<and> LineTyped \<notin> set es \<longrightarrow>
      file_rows (run es s) =
        file_rows s @ map (\<lambda>r. sample_row r (start_time s) (mode s) (name s))
                          (readings (takeWhile (\<lambda>e. e \<noteq> Sigint) es)) \<and>
      mode (run es s) = mode s)"
proof (intro conjI impI)
  assume p: "select_stdin (io s)"
  from iteration_pending [OF p, of r]
  show "file_rows (iteration r s) = file_rows s" "taken (iteration r s) = taken s"
    "frames (io (iteration r s)) = frames (io s)" by simp_all
  from p keyboard_handler_cases [of "io s"] obtain w1 where
    k: "keyboard_handler (io s) = Returns True w1" by (auto simp: select_stdin_def)
  then show "\<exists>w1. keyboard_handler (io s) = Returns True w1 \<and>
         iteration r s =
           (case select_mode w1 of
              Returns m w2 \<Rightarrow> s\<lparr>io := w2, mode := m\<rparr>
            | Raises e w2 \<Rightarrow> uncaught e w2 s
            | Blocks w2 \<Rightarrow> s\<lparr>io := w2, status := Waiting\<rparr>)"
    by (intro exI [of _ w1]) (simp add: iteration_def split: outcome.splits)
next
  assume a: "\<not> select_stdin (io s) \<and> valid_mode (mode s)"
  then show "iteration r s =
        s\<lparr>io := (io s)\<lparr>frames := frames (io s) @ [led_pattern (mode s)],
                       stdout := stdout (io s) @
                         [Echo (sample_row r (start_time s) (mode s) (name s))]\<rparr>,
          file_rows := file_rows s @ [sample_row r (start_time s) (mode s) (name s)],
          taken := taken s @ [r]\<rparr>"
    by (simp add: iteration_sample)
  show "sample_row r (start_time s) (mode s) (name s) ! 8 = Str (mode s)"
    by (simp add: sample_row_def)
next
  assume "status s = Running \<and> valid_mode (mode s) \<and> queue (io s) = [] \<and> LineTyped \<notin> set es"
  then have q: "file_rows (run es s) =
        file_rows s @ map (\<lambda>r. sample_row r (start_time s) (mode s) (name s))
                          (readings (takeWhile (\<lambda>e. e \<noteq> Sigint) es)) \<and>
      mode (run es s) = mode s" by (simp add: quiet_run)
  from q show "file_rows (run es s) =
        file_rows s @ map (\<lambda>r. sample_row r (start_time s) (mode s) (name s))
                          (readings (takeWhile (\<lambda>e. e \<noteq> Sigint) es))" by simp
  from q show "mode (run es s) = mode s" by simp
qed

theorem sampling_excludes_mode_change_witness:
  "file_rows (iteration (at_rest 101) line_waiting) = file_rows line_waiting \<and>
   taken (iteration (at_rest 101) line_waiting) = taken line_waiting \<and>
   iteration (at_rest 101) after_setup =
     after_setup
       \<lparr>io := (io after_setup)
          \<lparr>frames := frames (io after_setup) @ [led_pattern (mode after_setup)],
            stdout := stdout (io after_setup) @
              [Echo (sample_row (at_rest 101) (start_time after_setup) (mode after_setup)
                 (name after_setup))]\<rparr>,
        file_rows := file_rows after_setup @
          [sample_row (at_rest 101) (start_time after_setup) (mode after_setup)
             (name after_setup)],
        taken := taken after_setup @ [at_rest 101]\<rparr> \<and>
   file_rows (run [Iteration (at_rest 101), Iteration (at_rest 102), Sigint,
                   Iteration (at_rest 103)] after_setup) =
     [csv_header, sample_row (at_rest 101) 100 ''key'' ''Alice'',
      sample_row (at_rest 102) 100 ''key'' ''Alice''] \<and>
   mode (run [Iteration (at_rest 101), Iteration (at_rest 102), Sigint,
              Iteration (at_rest 103)] after_setup) = ''key''"
proof -
  let ?es = "[Iteration (at_rest 101), Iteration (at_rest 102), Sigint, Iteration (at_rest 103)]"
  have a: "select_stdin (io line_waiting)"
    by (simp add: line_waiting_def select_stdin_def)
  have b: "\<not> select_stdin (io after_setup) \<and> valid_mode (mode after_setup)"
    by (simp add: after_setup_def select_stdin_def valid_mode_def)
  have c: "status after_setup = Running \<and> valid_mode (mode after_setup) \<and>
      queue (io after_setup) = [] \<and> LineTyped \<notin> set ?es"
    by (simp add: after_setup_def valid_mode_def)
  have d: "file_rows after_setup = [csv_header]" "start_time after_setup = 100"
    "mode after_setup = ''key''" "name after_setup = ''Alice''"
    by (simp_all add: after_setup_def)
  from sampling_excludes_mode_change [of line_waiting "at_rest 101", THEN conjunct1,
      rule_format, OF a]
    sampling_excludes_mode_change [of after_setup "at_rest 101", THEN conjunct2,
      THEN conjunct1, rule_format, OF b]
    sampling_excludes_mode_change [of after_setup _ ?es, THEN conjunct2, THEN conjunct2,
      rule_format, OF c]
    d
  show ?thesis by simp
qed

text \<open>
  C5. The operator answers the mode prompt with \<open>4\<close>. \<open>select_mode\<close> does not prompt
  again: the dictionary has no entry for the digit and the lookup raises \<open>KeyError\<close>.
  At setup the exception ends \<open>log_orientation\<close> before the file is opened; during
  sampling it ends the process, and no row is written in that pass.
\<close>

theorem select_mode_unknown_digit_raises:
  "select_mode \<lparr>buf = [], queue = [], later = [''4''], stdout = [], frames = []\<rparr> =
     Raises (KeyError ''4'')
       \<lparr>buf = [nl], queue = [], later = [], stdout = [Msg mode_prompt], frames = []\<rparr> \<and>
   log_orientation_setup at_start operator_four =
     Raises (KeyError ''4'')
       \<lparr>buf = [nl], queue = [], later = [],
         stdout = [Msg name_prompt, Msg (check_prompt ''Alice''), Msg mode_prompt],
         frames = []\<rparr> \<and>
   status (iteration (at_rest 101) four_waiting) = Crashed (KeyError ''4'') \<and>
   file_rows (iteration (at_rest 101) four_waiting) = [csv_header]"
  by (simp add: select_mode_def print_msg_def read_digit.simps stdin_read1_def pull_def
        isdigit_def mode_of_digit_def log_orientation_setup_def set_name_def
        set_name_loop.simps negative_def input_line_def operator_four_def
        four_waiting_def after_setup_def iteration_def keyboard_handler_def select_stdin_def
        stdin_readline_def split_line_def uncaught_def)

subsection \<open>The interrupt\<close>

text \<open>
  C8. SIGINT reaches the process while it runs or waits in a read, after any events
  \<open>before\<close>. The handler prints the exit message, clears the LED array to 64 cells of
  (0, 0, 0) and exits with status 0; the exit leaves the \<open>with\<close> block, which closes the
  file. The rows of the file are exactly those written before the signal, and nothing
  that happens afterwards changes them. The handler does the same in any world, so also
  when the signal arrives during setup.
\<close>

theorem sigint_controlled_shutdown:
  assumes "status (run before s) = Running \<or> status (run before s) = Waiting"
  shows "file_rows (run (before @ Sigint # after) s) = file_rows (run before s) \<and>
         shown (io (run (before @ Sigint # after) s)) = Some (replicate 64 (0, 0, 0)) \<and>
         last (stdout (io (run (before @ Sigint # after) s))) = Msg ''Exiting logger script'' \<and>
         file_closed (run (before @ Sigint # after) s) \<and>
         status (run (before @ Sigint # after) s) = Exited 0 \<and>
         sigint_handler v =
           Raises (SystemExit 0) (sense_clear (print_msg ''Exiting logger script'' v)) \<and>
         shown (sense_clear (print_msg ''Exiting logger script'' v)) =
           Some (replicate 64 (0, 0, 0))"
proof -
  let ?s = "run before s"
  from assms have st: "step Sigint ?s = interrupt ?s" by (auto simp: step_def)
  have "status (interrupt ?s) = Exited 0" by (simp add: interrupt_fields)
  from run_ended [OF this, of after] st
  have "run (before @ Sigint # after) s = interrupt ?s" by (simp add: run_events_append)
  then show ?thesis
    by (simp add: interrupt_fields sense_clear_def print_msg_def shown_def sigint_handler_def)
qed

theorem sigint_controlled_shutdown_witness:
  "file_rows (run ([Iteration (at_rest 101)] @ Sigint # [Iteration (at_rest 102)]) after_setup) =
     file_rows (run [Iteration (at_rest 101)] after_setup) \<and>
   shown (io (run ([Iteration (at_rest 101)] @ Sigint # [Iteration (at_rest 102)]) after_setup)) =
     Some (replicate 64 (0, 0, 0)) \<and>
   last (stdout (io (run ([Iteration (at_rest 101)] @ Sigint # [Iteration (at_rest 102)])
     after_setup))) = Msg ''Exiting logger script'' \<and>
   file_closed (run ([Iteration (at_rest 101)] @ Sigint # [Iteration (at_rest 102)]) after_setup) \<and>
   status (run ([Iteration (at_rest 101)] @ Sigint # [Iteration (at_rest 102)]) after_setup) =
     Exited 0 \<and>
   sigint_handler operator =
     Raises (SystemExit 0) (sense_clear (print_msg ''Exiting logger script'' operator)) \<and>
   shown (sense_clear (print_msg ''Exiting logger script'' operator)) =
     Some (replicate 64 (0, 0, 0))"
proof -
  have "\<not> select_stdin (io after_setup)" "valid_mode (mode after_setup)"
    "status after_setup = Running"
    by (simp_all add: after_setup_def select_stdin_def valid_mode_def)
  then have "status (run [Iteration (at_rest 101)] after_setup) = Running"
    by (simp add: step_def iteration_sample)
  then have "status (run [Iteration (at_rest 101)] after_setup) = Running \<or>
      status (run [Iteration (at_rest 101)] after_setup) = Waiting" ..
  from sigint_controlled_shutdown [OF this, of "[Iteration (at_rest 102)]" operator]
  show ?thesis .
qed

subsection \<open>Timestamps\<close>

lemma isdigit_digit_char: "k < 10 \<Longrightarrow> isdigit (digit_char k)"
  unfolding isdigit_def digit_char_def by (rule nth_mem) simp

lemma show_nat_1: "n < 10 \<Longrightarrow> show_nat n = [digit_char n]"
  by (subst show_nat.simps) simp

lemma show_nat_2: "10 \<le> n \<Longrightarrow> n < 100 \<Longrightarrow> show_nat n = [digit_char (n div 10), digit_char (n mod 10)]"
  by (subst show_nat.simps) (simp add: show_nat_1)

lemma show_nat_3: "100 \<le> n \<Longrightarrow> n < 1000 \<Longrightarrow>
  show_nat n = [digit_char (n div 100), digit_char (n div 10 mod 10), digit_char (n mod 10)]"
  by (subst show_nat.simps) (simp add: show_nat_2 div_mult2_eq[symmetric])

lemma show_nat_4: "1000 \<le> n \<Longrightarrow> n < 10000 \<Longrightarrow>
  show_nat n = [digit_char (n div 1000), digit_char (n div 100 mod 10),
                digit_char (n div 10 mod 10), digit_char (n mod 10)]"
  by (subst show_nat.simps) (simp add: show_nat_3 div_mult2_eq[symmetric])

lemma pad2_digits:
  "n < 100 \<Longrightarrow> \<exists>a b. zero_pad 2 (show_nat n) = [a, b] \<and> isdigit a \<and> isdigit b"
proof (cases "n < 10")
  case True
  assume "n < 100"
  have "isdigit (CHR ''0'')" by (simp add: isdigit_def)
  with True show ?thesis
    by (simp add: show_nat_1 zero_pad_def isdigit_digit_char)
next
  case False
  assume "n < 100"
  with False show ?thesis
    by (simp add: show_nat_2 zero_pad_def isdigit_digit_char)
qed

lemma pad4_digits:
  "1000 \<le> n \<Longrightarrow> n < 10000 \<Longrightarrow>
    \<exists>a b c d. zero_pad 4 (show_nat n) = [a, b, c, d] \<and> isdigit a \<and> isdigit b \<and> isdigit c \<and> isdigit d"
  by (simp add: show_nat_4 zero_pad_def isdigit_digit_char)

lemma strftime_timestamp_shape:
  assumes "valid_datetime dt"
  shows "has_shape ''dd/dd/dddd_dd:dd:dd'' (strftime ''%m/%d/%Y_%H:%M:%S'' dt)"
proof -
  from assms obtain m1 m2 where m: "zero_pad 2 (show_nat (month dt)) = [m1, m2]" "isdigit m1" "isdigit m2"
    using pad2_digits[of "month dt"] by (auto simp: valid_datetime_def)
  from assms obtain d1 d2 where d: "zero_pad 2 (show_nat (day dt)) = [d1, d2]" "isdigit d1" "isdigit d2"
    using pad2_digits[of "day dt"] by (auto simp: valid_datetime_def)
  from assms obtain h1 h2 where h: "zero_pad 2 (show_nat (hour dt)) = [h1, h2]" "isdigit h1" "isdigit h2"
    using pad2_digits[of "hour dt"] by (auto simp: valid_datetime_def)
  from assms obtain n1 n2 where n: "zero_pad 2 (show_nat (minute dt)) = [n1, n2]" "isdigit n1" "isdigit n2"
    using pad2_digits[of "minute dt"] by (auto simp: valid_datetime_def)
  from assms obtain s1 s2 where s: "zero_pad 2 (show_nat (second dt)) = [s1, s2]" "isdigit s1" "isdigit s2"
    using pad2_digits[of "second dt"] by (auto simp: valid_datetime_def)
  from assms obtain y1 y2 y3 y4 where y: "zero_pad 4 (show_nat (year dt)) = [y1, y2, y3, y4]"
    "isdigit y1" "isdigit y2" "isdigit y3" "isdigit y4"
    using pad4_digits[of "year dt"] by (auto simp: valid_datetime_def)
  have "strftime ''%m/%d/%Y_%H:%M:%S'' dt =
      [m1, m2, CHR ''/'', d1, d2, CHR ''/'', y1, y2, y3, y4, CHR ''_'', h1, h2, CHR '':'', n1, n2, CHR '':'', s1, s2]"
    by (simp add: directive_def m d h n s y)
  then show ?thesis
    using m d h n s y by simp
qed

subsection \<open>The rows of the file\<close>



lemma subseq_subset: "subseq xs ys \<Longrightarrow> set xs \<subseteq> set ys"
  by (induction rule: list_emb.induct) auto




text \<open>
  C3. In every session that gets through setup, the file starts with the header
  roll, pitch, yaw, x, y, z, timestamp, runtime, mode, name, and the header occurs nowhere
  else. Every row after it is a sample of one pass of the loop: its ten fields are the
  roll, pitch and yaw, the three accelerations, the timestamp, the runtime, a mode name
  and the operator's name, in this order, and the timestamp has the shape
  MM/DD/YYYY_HH:MM:SS, for the dates that \<open>datetime.now()\<close> returns.
\<close>

theorem header_once_then_samples:
  assumes "log_orientation_setup env w = Returns s w'"
    and "\<forall>r\<in>set (readings es). valid_datetime (now r)"
  shows "csv_header = [Str ''roll'', Str ''pitch'', Str ''yaw'', Str ''x'', Str ''y'', Str ''z'',
                       Str ''timestamp'', Str ''runtime'', Str ''mode'', Str ''name''] \<and>
         (\<exists>data. file_rows (run es s) = csv_header # data \<and> csv_header \<notin> set data \<and>
            (\<forall>row\<in>set data. \<exists>r m. r \<in> set (readings es) \<and> valid_mode m \<and>
               row = [FloatStr (roll r), FloatStr (pitch r), FloatStr (yaw r),
                      FloatStr (acc_x r), FloatStr (acc_y r), FloatStr (acc_z r),
                      Str (strftime ''%m/%d/%Y_%H:%M:%S'' (now r)),
                      Float (clock r - start_clock env), Str m, Str (name s)] \<and>
               has_shape ''dd/dd/dddd_dd:dd:dd'' (strftime ''%m/%d/%Y_%H:%M:%S'' (now r))))"
proof -
  from setup_returns [OF assms(1)] have s: "valid_mode (mode s)" "file_rows s = [csv_header]"
    "start_time s = start_clock env" by simp_all
  from run_append [OF s(1), of es] s obtain rms where
    rows: "file_rows (run es s) =
             csv_header # map (\<lambda>(r, m). sample_row r (start_clock env) m (name s)) rms"
    and sub: "subseq (map fst rms) (readings es)"
    and vm: "\<forall>m\<in>set (map snd rms). valid_mode m"
    by auto
  let ?data = "map (\<lambda>(r, m). sample_row r (start_clock env) m (name s)) rms"
  from sub have inc: "set (map fst rms) \<subseteq> set (readings es)"
    by (rule subseq_subset)
  have "csv_header \<notin> set ?data"
    by (auto simp: csv_header_def sample_row_def)
  moreover have "\<forall>row\<in>set ?data. \<exists>r m. r \<in> set (readings es) \<and> valid_mode m \<and>
               row = [FloatStr (roll r), FloatStr (pitch r), FloatStr (yaw r),
                      FloatStr (acc_x r), FloatStr (acc_y r), FloatStr (acc_z r),
                      Str (strftime ''%m/%d/%Y_%H:%M:%S'' (now r)),
                      Float (clock r - start_clock env), Str m, Str (name s)] \<and>
               has_shape ''dd/dd/dddd_dd:dd:dd'' (strftime ''%m/%d/%Y_%H:%M:%S'' (now r))"
  proof
    fix row assume "row \<in> set ?data"
    then obtain r m where rm: "(r, m) \<in> set rms" "row = sample_row r (start_clock env) m (name s)"
      by auto
    from rm(1) inc have r: "r \<in> set (readings es)" by force
    from rm(1) vm have m: "valid_mode m" by force
    from r assms(2) have "valid_datetime (now r)" by simp
    from strftime_timestamp_shape [OF this] r m rm(2)
    show "\<exists>r m. r \<in> set (readings es) \<and> valid_mode m \<and>
               row = [FloatStr (roll r), FloatStr (pitch r), FloatStr (yaw r),
                      FloatStr (acc_x r), FloatStr (acc_y r), FloatStr (acc_z r),
                      Str (strftime ''%m/%d/%Y_%H:%M:%S'' (now r)),
                      Float (clock r - start_clock env), Str m, Str (name s)] \<and>
               has_shape ''dd/dd/dddd_dd:dd:dd'' (strftime ''%m/%d/%Y_%H:%M:%S'' (now r))"
      by (intro exI [of _ r] exI [of _ m]) (simp add: sample_row_def)
  qed
  ultimately show ?thesis using rows
    by (intro conjI exI [of _ ?data]) (simp_all add: csv_header_def)
qed

theorem header_once_then_samples_witness:
  "\<exists>data. file_rows (run [Iteration (at_rest 101), LineTyped, Iteration (at_rest 102)]
       after_setup) = csv_header # data \<and> csv_header \<notin> set data \<and>
     (\<forall>row\<in>set data. \<exists>r m.
         r \<in> set (readings [Iteration (at_rest 101), LineTyped, Iteration (at_rest 102)]) \<and>
         valid_mode m \<and>
         row = [FloatStr (roll r), FloatStr (pitch r), FloatStr (yaw r),
                FloatStr (acc_x r), FloatStr (acc_y r), FloatStr (acc_z r),
                Str (strftime ''%m/%d/%Y_%H:%M:%S'' (now r)),
                Float (clock r - start_clock at_start), Str m, Str (name after_setup)] \<and>
         has_shape ''dd/dd/dddd_dd:dd:dd'' (strftime ''%m/%d/%Y_%H:%M:%S'' (now r)))"
proof -
  let ?es = "[Iteration (at_rest 101), LineTyped, Iteration (at_rest 102)]"
  have "\<forall>r\<in>set (readings ?es). valid_datetime (now r)"
    by (simp add: at_rest_def noon_def valid_datetime_def)
  from header_once_then_samples [OF setup_operator this, THEN conjunct2] show ?thesis .
qed

end
